theory Spec2Isabelle
  imports Complex_Main "HOL-Library.AList" "HOL-Library.Word"
begin

section \<open>The reward engine of worker.py\<close>

text \<open>
  The engine reads history records, which are JSON objects. The model keeps the keys
  the engine reads: \<open>type\<close>, \<open>timestamp\<close>, \<open>reward_key\<close>, \<open>rewards\<close>,
  \<open>properties\<close> and \<open>reward\<close>; \<open>payload\<close> stands for all the other keys, which are
  carried along untouched. An absent key is \<open>None\<close>.

  A JSON value that reaches Python's \<open>float()\<close> is a number, a boolean or \<open>null\<close>;
  strings, arrays and objects are not part of this model. Numbers are reals: the
  rounding of double precision addition is not modelled. The \<open>timestamp\<close> is the
  instant that \<open>datetime.strptime\<close> yields, counted in microseconds.
\<close>

datatype py_error =
  InvalidType | KeyError | TypeError | ValueError | OverflowError | AttributeError |
  ZeroDivisionError

datatype json = JNum real | JBool bool | JNull

datatype properties = Properties (pvalue: "json option")

record history_record =
  payload :: string
  rec_type :: "string option"
  timestamp :: int
  reward_key :: "string option"
  rewards :: "(string \<times> json) list option"
  properties :: "properties option"
  reward :: "real option"

text \<open>
  The constants that worker.py imports from its configuration module and the window
  it reads from the environment. The configuration module of worker.py is not part of
  the sources, so the constants are parameters of the model.
\<close>

record config =
  window :: int
  DEFAULT_REWARD_KEY :: string
  DEFAULT_EVENTS_REWARD_VALUE :: real
  DEFAULT_REWARD_VALUE :: real

type_synonym buckets = "(string \<times> history_record list) list"

text \<open>
  \<open>float(reward)\<close>: a number converts, \<open>True\<close> is 1.0 and \<open>False\<close> is 0.0 (the
  values of the update_listeners cases in tests/test_worker.py), \<open>None\<close> raises
  TypeError.
\<close>

fun py_float :: "json \<Rightarrow> py_error + real" where
  "py_float (JNum x) = Inr x"
| "py_float (JBool b) = Inr (if b then 1 else 0)"
| "py_float JNull = Inl TypeError"

text \<open>\<open>listener.get('reward', DEFAULT_REWARD_VALUE)\<close>\<close>

definition get_reward :: "config \<Rightarrow> history_record \<Rightarrow> real" where
  "get_reward cfg listener =
     (case reward listener of None \<Rightarrow> DEFAULT_REWARD_VALUE cfg | Some x \<Rightarrow> x)"

text \<open>
  \<open>listener['reward'] = listener.get('reward', DEFAULT_REWARD_VALUE) + float(reward)\<close>,
  with \<open>v\<close> the value of \<open>float(reward)\<close>.
\<close>

definition add_reward :: "config \<Rightarrow> real \<Rightarrow> history_record \<Rightarrow> history_record" where
  "add_reward cfg v listener = listener\<lparr>reward := Some (get_reward cfg listener + v)\<rparr>"

text \<open>The test \<open>listener_timestamp + window < record_timestamp\<close> of update_listeners.\<close>

definition expired :: "config \<Rightarrow> history_record \<Rightarrow> history_record \<Rightarrow> bool" where
  "expired cfg listener record \<longleftrightarrow> timestamp listener + window cfg < timestamp record"

text \<open>
  update_listeners walks the list from its last index down to 0, so the tail of the
  list is handled before its head. An expired listener is deleted from the list; any
  other gets \<open>float(reward)\<close> added to its reward. The list is changed in place: the
  model returns the new list, and an exception of \<open>float\<close> ends the call.
\<close>

fun update_listeners ::
  "config \<Rightarrow> history_record list \<Rightarrow> history_record \<Rightarrow> json \<Rightarrow> py_error + history_record list"
where
  "update_listeners cfg [] record rv = Inr []"
| "update_listeners cfg (listener # listeners) record rv =
     (case update_listeners cfg listeners record rv of
        Inl e \<Rightarrow> Inl e
      | Inr listeners' \<Rightarrow>
          if expired cfg listener record then Inr listeners'
          else (case py_float rv of
                  Inl e \<Rightarrow> Inl e
                | Inr v \<Rightarrow> Inr (add_reward cfg v listener # listeners')))"

text \<open>
  \<open>decision_records_by_reward_key\<close> is a Python dict, which keeps the order in which
  its keys were first stored: an association list, where \<open>AList.update\<close> replaces the
  value of a present key in its place and appends an absent one.
\<close>

definition dict_get :: "buckets \<Rightarrow> string \<Rightarrow> history_record list" where
  "dict_get d k = (case map_of d k of None \<Rightarrow> [] | Some listeners \<Rightarrow> listeners)"

text \<open>\<open>record.get('reward_key', DEFAULT_REWARD_KEY)\<close>\<close>

definition key_of :: "config \<Rightarrow> history_record \<Rightarrow> string" where
  "key_of cfg record =
     (case reward_key record of None \<Rightarrow> DEFAULT_REWARD_KEY cfg | Some k \<Rightarrow> k)"

text \<open>
  The branch for a record of type \<open>rewards\<close>: for every item of \<open>record['rewards']\<close>
  the bucket of its key is updated. The list that \<open>get\<close> returns for a present key is
  the bucket itself, so the deletions and the rewards land in the dict; for an absent
  key it is a fresh empty list, and the dict stays as it is.
\<close>

fun apply_rewards ::
  "config \<Rightarrow> buckets \<Rightarrow> history_record \<Rightarrow> (string \<times> json) list \<Rightarrow> py_error + buckets"
where
  "apply_rewards cfg d record [] = Inr d"
| "apply_rewards cfg d record ((k, rv) # items) =
     (case map_of d k of
        None \<Rightarrow> apply_rewards cfg d record items
      | Some listeners \<Rightarrow>
          (case update_listeners cfg listeners record rv of
             Inl e \<Rightarrow> Inl e
           | Inr listeners' \<Rightarrow> apply_rewards cfg (AList.update k listeners' d) record items))"

text \<open>
  \<open>record.get('properties', {'properties': {}}).get('value', DEFAULT_EVENTS_REWARD_VALUE)\<close>
\<close>

definition event_value :: "config \<Rightarrow> history_record \<Rightarrow> json" where
  "event_value cfg record =
     (case properties record of
        None \<Rightarrow> JNum (DEFAULT_EVENTS_REWARD_VALUE cfg)
      | Some p \<Rightarrow>
          (case pvalue p of
             None \<Rightarrow> JNum (DEFAULT_EVENTS_REWARD_VALUE cfg)
           | Some v \<Rightarrow> v))"

text \<open>The branch for a record of type \<open>event\<close>: every bucket is updated, in dict order.\<close>

fun apply_event ::
  "config \<Rightarrow> buckets \<Rightarrow> history_record \<Rightarrow> json \<Rightarrow> py_error + buckets"
where
  "apply_event cfg [] record rv = Inr []"
| "apply_event cfg ((k, listeners) # d) record rv =
     (case update_listeners cfg listeners record rv of
        Inl e \<Rightarrow> Inl e
      | Inr listeners' \<Rightarrow>
          (case apply_event cfg d record rv of
             Inl e \<Rightarrow> Inl e
           | Inr d' \<Rightarrow> Inr ((k, listeners') # d')))"

text \<open>One turn of the loop of assign_rewards_to_decisions.\<close>

definition assign_step :: "config \<Rightarrow> buckets \<Rightarrow> history_record \<Rightarrow> py_error + buckets" where
  "assign_step cfg d record =
     (if rec_type record = Some ''decision'' then
        Inr (AList.update (key_of cfg record) (dict_get d (key_of cfg record) @ [record]) d)
      else if rec_type record = Some ''rewards'' then
        (case rewards record of
           None \<Rightarrow> Inl KeyError
         | Some items \<Rightarrow> apply_rewards cfg d record items)
      else if rec_type record = Some ''event'' then
        apply_event cfg d record (event_value cfg record)
      else Inl InvalidType)"

fun assign_loop :: "config \<Rightarrow> buckets \<Rightarrow> history_record list \<Rightarrow> py_error + buckets" where
  "assign_loop cfg d [] = Inr d"
| "assign_loop cfg d (record # records) =
     (case assign_step cfg d record of
        Inl e \<Rightarrow> Inl e
      | Inr d' \<Rightarrow> assign_loop cfg d' records)"

definition assign_rewards_to_decisions ::
  "config \<Rightarrow> history_record list \<Rightarrow> py_error + buckets" where
  "assign_rewards_to_decisions cfg records = assign_loop cfg [] records"

section \<open>The shard planner of worker.py\<close>

text \<open>
  \<open>mmh3.hash(key, signed=False)\<close> is MurmurHash3_x86_32 with seed 0 over the bytes of
  the key, read as an unsigned 32 bit integer. The mmh3 package is not part of the
  sources; the hash is written out from the published algorithm. A \<open>string\<close> holds
  the bytes of the name, so \<open>take 2\<close> is \<open>d.name[:2]\<close> for the ASCII names of the
  input directories (the first two digits of a hashed history id).
\<close>

unbundle bit_operations_syntax

definition rotl32 :: "32 word \<Rightarrow> nat \<Rightarrow> 32 word" where
  "rotl32 x r = push_bit r x OR drop_bit (32 - r) x"

definition scramble :: "32 word \<Rightarrow> 32 word" where
  "scramble k = rotl32 (k * 0xcc9e2d51) 15 * 0x1b873593"

fun body :: "32 word \<Rightarrow> string \<Rightarrow> 32 word \<times> string" where
  "body h (a # b # c # d # rest) =
     body (rotl32 (h XOR scramble (of_char a OR push_bit 8 (of_char b) OR
             push_bit 16 (of_char c) OR push_bit 24 (of_char d))) 13 * 5 + 0xe6546b64) rest"
| "body h tail = (h, tail)"

fun tail_word :: "string \<Rightarrow> 32 word" where
  "tail_word [] = 0"
| "tail_word (c # cs) = of_char c XOR push_bit 8 (tail_word cs)"

definition fmix32 :: "32 word \<Rightarrow> 32 word" where
  "fmix32 h0 =
     (let h1 = (h0 XOR drop_bit 16 h0) * 0x85ebca6b;
          h2 = (h1 XOR drop_bit 13 h1) * 0xc2b2ae35
      in h2 XOR drop_bit 16 h2)"

definition mmh3_hash :: "string \<Rightarrow> int" where
  "mmh3_hash key =
     (case body 0 key of
        (h, tail) \<Rightarrow>
          uint (fmix32 ((if tail = [] then h else h XOR scramble (tail_word tail))
                        XOR of_nat (length key))))"

text \<open>An entry of \<open>input_dir.iterdir()\<close>: its name and what \<open>is_dir()\<close> answers.\<close>

record dir_entry =
  entry_name :: string
  is_dir :: bool

text \<open>
  identify_dirs_to_process: the entries are visited in the order of the listing; a
  directory is kept when \<open>directory_int % node_count == node_id\<close>. Python's \<open>%\<close> on
  integers is \<open>mod\<close> on \<open>int\<close>, and raises ZeroDivisionError for a zero divisor.
\<close>

fun identify_dirs_to_process :: "dir_entry list \<Rightarrow> int \<Rightarrow> int \<Rightarrow> py_error + dir_entry list" where
  "identify_dirs_to_process [] node_id node_count = Inr []"
| "identify_dirs_to_process (d # input_dir) node_id node_count =
     (if is_dir d then
        (if node_count = 0 then Inl ZeroDivisionError
         else (case identify_dirs_to_process input_dir node_id node_count of
                 Inl e \<Rightarrow> Inl e
               | Inr dirs_to_process \<Rightarrow>
                   if mmh3_hash (take 2 (entry_name d)) mod node_count = node_id
                   then Inr (d # dirs_to_process)
                   else Inr dirs_to_process))
      else identify_dirs_to_process input_dir node_id node_count)"

section \<open>The history loader and the validator of utils.py\<close>

text \<open>
  A line of an input file either fails in \<open>json.loads\<close> or is a JSON object. The model
  keeps the keys that utils.py and its tests read. \<open>timestamp\<close> is absent
  (\<open>TsMissing\<close>), \<open>null\<close> (\<open>TsNull\<close>, for which the parser raises TypeError), or a
  string. \<open>dateutil.parser.parse\<close> answers a string in one of three ways: it
  raises a ValueError (its ParserError is one) for a string it cannot read as a date,
  \<open>TsUnparseable\<close>; it raises OverflowError for a string whose numbers are beyond the
  integers of the platform, \<open>TsOverflow\<close>; or it yields an instant, \<open>TsParsed\<close> (which
  \<open>load_records\<close> then stores in place of the string). \<open>message_id\<close> is a string when
  present.
\<close>

datatype scalar = Null | Boolean bool | Integer int | Float real | String string

datatype timestamp_field = TsMissing | TsNull | TsUnparseable | TsOverflow | TsParsed int

record json_object =
  MESSAGE_ID_KEY :: "string option"
  TIMESTAMP_KEY :: timestamp_field
  TYPE_KEY :: "scalar option"
  HISTORY_ID_KEY :: "scalar option"
  MODEL_KEY :: "scalar option"
  COUNT_KEY :: "scalar option"

datatype line = Malformed | Object json_object

text \<open>
  \<open>gzf.readlines()\<close> reads the whole file before the first line is parsed: a corrupt
  gzip stream raises there, and no line of the file is seen.
\<close>

datatype gzip_content = Corrupt | Lines "line list"

record gzip_file =
  file_name :: string
  content :: gzip_content

text \<open>
  What loading changes: the set \<open>message_ids\<close>, the three counters of \<open>stats\<close>, and
  the names of the files under \<open>UNRECOVERABLE_PATH\<close>.
\<close>

record loader_state =
  message_ids :: "string set"
  DUPLICATE_MESSAGE_ID_COUNT :: nat
  RECORD_COUNT :: nat
  UNRECOVERABLE_PARSE_ERROR_COUNT :: nat
  UNRECOVERABLE_PATH :: "string set"

definition copy_to_unrecoverable :: "gzip_file \<Rightarrow> loader_state \<Rightarrow> loader_state" where
  "copy_to_unrecoverable file st =
     st\<lparr>UNRECOVERABLE_PATH := insert (file_name file) (UNRECOVERABLE_PATH st)\<rparr>"

text \<open>
  The loop over the lines in load_records, with the variables \<open>records\<close> and \<open>error\<close>.
  The inner \<open>except\<close> catches JSONDecodeError and ValueError: a line that is not JSON
  and a timestamp that the parser rejects with a ValueError set \<open>error\<close> and the loop
  goes on. The KeyError of a missing \<open>timestamp\<close> or \<open>message_id\<close>, the TypeError of a
  \<open>null\<close> timestamp and the OverflowError of the parser are caught by neither handler
  and leave load_records.
\<close>

fun read_lines ::
  "line list \<Rightarrow> json_object list \<times> loader_state \<times> bool \<Rightarrow>
   py_error + json_object list \<times> loader_state \<times> bool"
where
  "read_lines [] acc = Inr acc"
| "read_lines (Malformed # lines) (records, st, error) = read_lines lines (records, st, True)"
| "read_lines (Object obj # lines) (records, st, error) =
     (case TIMESTAMP_KEY obj of
        TsMissing \<Rightarrow> Inl KeyError
      | TsNull \<Rightarrow> Inl TypeError
      | TsUnparseable \<Rightarrow> read_lines lines (records, st, True)
      | TsOverflow \<Rightarrow> Inl OverflowError
      | TsParsed t \<Rightarrow>
          (case MESSAGE_ID_KEY obj of
             None \<Rightarrow> Inl KeyError
           | Some message_id \<Rightarrow>
               if message_id \<notin> message_ids st then
                 read_lines lines
                   (records @ [obj], st\<lparr>message_ids := insert message_id (message_ids st)\<rparr>, error)
               else
                 read_lines lines
                   (records, st\<lparr>DUPLICATE_MESSAGE_ID_COUNT := DUPLICATE_MESSAGE_ID_COUNT st + 1\<rparr>,
                    error)))"

definition load_records ::
  "gzip_file \<Rightarrow> loader_state \<Rightarrow> py_error + json_object list \<times> loader_state" where
  "load_records file st =
     (case (case content file of
              Corrupt \<Rightarrow> Inr ([], st, True)
            | Lines lines \<Rightarrow> read_lines lines ([], st, False)) of
        Inl e \<Rightarrow> Inl e
      | Inr (records, st1, error) \<Rightarrow>
          (let st2 =
                 (if error then
                    copy_to_unrecoverable file
                      (st1\<lparr>UNRECOVERABLE_PARSE_ERROR_COUNT := UNRECOVERABLE_PARSE_ERROR_COUNT st1 + 1\<rparr>)
                  else st1)
           in Inr (records, st2\<lparr>RECORD_COUNT := RECORD_COUNT st2 + length records\<rparr>)))"

fun load_files ::
  "gzip_file list \<Rightarrow> json_object list \<times> loader_state \<Rightarrow>
   py_error + json_object list \<times> loader_state"
where
  "load_files [] acc = Inr acc"
| "load_files (file # file_group) (records, st) =
     (case load_records file st of
        Inl e \<Rightarrow> Inl e
      | Inr (loaded, st') \<Rightarrow> load_files file_group (records @ loaded, st'))"

text \<open>load_history starts from no records and an empty set of message ids.\<close>

definition load_history ::
  "gzip_file list \<Rightarrow> loader_state \<Rightarrow> py_error + json_object list \<times> loader_state" where
  "load_history file_group stats = load_files file_group ([], stats\<lparr>message_ids := {}\<rparr>)"

text \<open>
  \<open>if history_id:\<close> holds for a string that is not empty. \<open>hashlib.sha256\<close> is a
  parameter of the model.
\<close>

definition truthy :: "string option \<Rightarrow> bool" where
  "truthy history_id \<longleftrightarrow> history_id \<noteq> None \<and> history_id \<noteq> Some []"

definition validate_record ::
  "(string \<Rightarrow> string) \<Rightarrow> json_object \<Rightarrow> string option \<Rightarrow> string \<Rightarrow> py_error + unit" where
  "validate_record sha256_hexdigest record history_id hashed_history_id =
     (if TIMESTAMP_KEY record = TsMissing \<or> TYPE_KEY record = None \<or> HISTORY_ID_KEY record = None
      then Inl ValueError
      else if TYPE_KEY record = Some (String ''decision'') \<and> MODEL_KEY record = None
      then Inl ValueError
      else if truthy history_id then
        (if map_option String history_id \<noteq> HISTORY_ID_KEY record then Inl ValueError else Inr ())
      else
        (case HISTORY_ID_KEY record of
           Some (String s) \<Rightarrow>
             if \<not> sha256_hexdigest s = hashed_history_id then Inl ValueError else Inr ()
         | _ \<Rightarrow> Inl AttributeError))"

text \<open>
  The loop of filter_valid_records with its variables \<open>results\<close>, \<open>history_id\<close> and
  \<open>skipped_record_count\<close>; every exception of validate_record is caught. The function
  prints the count of skipped records; the model returns it beside the results.
\<close>

fun filter_loop ::
  "(string \<Rightarrow> string) \<Rightarrow> string \<Rightarrow> json_object list \<Rightarrow>
   json_object list \<times> string option \<times> nat \<Rightarrow> json_object list \<times> nat"
where
  "filter_loop sha256_hexdigest hashed_history_id [] (results, history_id, skipped_record_count) =
     (results, skipped_record_count)"
| "filter_loop sha256_hexdigest hashed_history_id (record # records)
       (results, history_id, skipped_record_count) =
     (case validate_record sha256_hexdigest record history_id hashed_history_id of
        Inr _ \<Rightarrow>
          filter_loop sha256_hexdigest hashed_history_id records
            (results @ [record],
             (if \<not> truthy history_id then
                (case HISTORY_ID_KEY record of Some (String s) \<Rightarrow> Some s | _ \<Rightarrow> history_id)
              else history_id),
             skipped_record_count)
      | Inl e \<Rightarrow>
          filter_loop sha256_hexdigest hashed_history_id records
            (results, history_id, skipped_record_count + 1))"

definition filter_valid_records ::
  "(string \<Rightarrow> string) \<Rightarrow> string \<Rightarrow> json_object list \<Rightarrow> json_object list \<times> nat" where
  "filter_valid_records sha256_hexdigest hashed_history_id records =
     filter_loop sha256_hexdigest hashed_history_id records ([], None, 0)"

section \<open>The reward of one decision\<close>

text \<open>
  The engine works bucket by bucket. The properties below speak of one decision: what
  the records that come after it do to it. \<open>values_for cfg k record\<close> lists the
  values that \<open>record\<close> sends to the listeners of bucket \<open>k\<close>, one per call of
  update_listeners on that bucket: an event sends its value to every bucket, a rewards
  record sends the values of its items with key \<open>k\<close>, a decision sends nothing.
\<close>

definition values_for :: "config \<Rightarrow> string \<Rightarrow> history_record \<Rightarrow> json list" where
  "values_for cfg k record =
     (if rec_type record = Some ''decision'' then []
      else if rec_type record = Some ''rewards'' then
        (case rewards record of
           None \<Rightarrow> []
         | Some items \<Rightarrow> map snd (filter (\<lambda>item. fst item = k) items))
      else if rec_type record = Some ''event'' then [event_value cfg record]
      else [])"

text \<open>
  The number that \<open>float\<close> yields. Where \<open>float\<close> raises, the run of the engine has
  no result and no sum is stated about it; \<open>0\<close> stands there.
\<close>

definition float_val :: "json \<Rightarrow> real" where
  "float_val rv = (case py_float rv of Inl e \<Rightarrow> 0 | Inr v \<Rightarrow> v)"

definition contribution :: "config \<Rightarrow> string \<Rightarrow> history_record \<Rightarrow> real" where
  "contribution cfg k record = sum_list (map float_val (values_for cfg k record))"

text \<open>
  One call of update_listeners as one listener sees it: \<open>None\<close> when the listener is
  deleted. \<open>hits\<close> is a run of such calls by one record, \<open>fate\<close> follows a listener
  through a list of records, and \<open>enrolled\<close> collects the decisions of bucket \<open>k\<close> in
  a list of records, each as the records after it leave it.
\<close>

definition hit :: "config \<Rightarrow> history_record \<Rightarrow> json \<Rightarrow> history_record \<Rightarrow> history_record option" where
  "hit cfg record rv listener =
     (if expired cfg listener record then None
      else Some (add_reward cfg (float_val rv) listener))"

fun hits :: "config \<Rightarrow> history_record \<Rightarrow> json list \<Rightarrow> history_record \<Rightarrow> history_record option" where
  "hits cfg record [] listener = Some listener"
| "hits cfg record (rv # rvs) listener =
     (case hit cfg record rv listener of
        None \<Rightarrow> None
      | Some listener' \<Rightarrow> hits cfg record rvs listener')"

fun fate :: "config \<Rightarrow> string \<Rightarrow> history_record list \<Rightarrow> history_record \<Rightarrow> history_record option" where
  "fate cfg k [] listener = Some listener"
| "fate cfg k (record # records) listener =
     (case hits cfg record (values_for cfg k record) listener of
        None \<Rightarrow> None
      | Some listener' \<Rightarrow> fate cfg k records listener')"

fun enrolled :: "config \<Rightarrow> string \<Rightarrow> history_record list \<Rightarrow> history_record list" where
  "enrolled cfg k [] = []"
| "enrolled cfg k (record # records) =
     (if rec_type record = Some ''decision'' \<and> key_of cfg record = k
      then (case fate cfg k records record of None \<Rightarrow> [] | Some listener \<Rightarrow> [listener])
      else []) @ enrolled cfg k records"

text \<open>A later record that reaches the bucket of the listener after its window has closed.\<close>

definition dropped :: "config \<Rightarrow> string \<Rightarrow> history_record list \<Rightarrow> history_record \<Rightarrow> bool" where
  "dropped cfg k records listener \<longleftrightarrow>
     (\<exists>record\<in>set records. values_for cfg k record \<noteq> [] \<and> expired cfg listener record)"

text \<open>
  The window of the specification, \<open>t_D < t \<le> t_D + W\<close>, and the window that the
  engine applies to the records after a decision in a sorted list, \<open>t_D \<le> t \<le> t_D + W\<close>.
\<close>

definition spec_window :: "config \<Rightarrow> history_record \<Rightarrow> history_record \<Rightarrow> bool" where
  "spec_window cfg d record \<longleftrightarrow>
     timestamp d < timestamp record \<and> timestamp record \<le> timestamp d + window cfg"

definition in_window :: "config \<Rightarrow> history_record \<Rightarrow> history_record \<Rightarrow> bool" where
  "in_window cfg d record \<longleftrightarrow>
     timestamp d \<le> timestamp record \<and> timestamp record \<le> timestamp d + window cfg"

text \<open>
  The value of an event in the words of the specification, for an event whose
  \<open>properties.value\<close> is absent or a number: the number when it is there, and
  DEFAULT_EVENTS_REWARD_VALUE when \<open>properties\<close> or \<open>value\<close> is absent.
\<close>

definition spec_event_value :: "config \<Rightarrow> history_record \<Rightarrow> real option" where
  "spec_event_value cfg record =
     (case properties record of
        None \<Rightarrow> Some (DEFAULT_EVENTS_REWARD_VALUE cfg)
      | Some (Properties None) \<Rightarrow> Some (DEFAULT_EVENTS_REWARD_VALUE cfg)
      | Some (Properties (Some (JNum x))) \<Rightarrow> Some x
      | Some (Properties (Some _)) \<Rightarrow> None)"

text \<open>A record the engine can take: its type is known and every value it carries is a number.\<close>

definition well_formed :: "config \<Rightarrow> history_record \<Rightarrow> bool" where
  "well_formed cfg record \<longleftrightarrow>
     rec_type record = Some ''decision'' \<or>
     rec_type record = Some ''rewards'' \<and>
       (case rewards record of
          None \<Rightarrow> False
        | Some items \<Rightarrow> list_all (\<lambda>item. snd item \<noteq> JNull) items) \<or>
     rec_type record = Some ''event'' \<and> event_value cfg record \<noteq> JNull"

section \<open>Lines that are passed over\<close>

text \<open>
  The lines that the loop of load_records passes over: a line that is not JSON, and
  an object whose timestamp the parser rejects with a ValueError.
\<close>

fun skipped :: "line \<Rightarrow> bool" where
  "skipped Malformed = True"
| "skipped (Object obj) = (TIMESTAMP_KEY obj = TsUnparseable)"

definition unparseable :: "line \<Rightarrow> bool" where
  "unparseable l = (case l of Malformed \<Rightarrow> False | Object obj \<Rightarrow> TIMESTAMP_KEY obj = TsUnparseable)"

text \<open>
  A state after \<open>c\<close> more counts of an unrecoverable parse error and with the files
  \<open>names\<close> copied to the unrecoverable directory; and a result of loading so changed.
\<close>

definition quarantined :: "nat \<Rightarrow> string set \<Rightarrow> loader_state \<Rightarrow> loader_state" where
  "quarantined c names st =
     st\<lparr>UNRECOVERABLE_PARSE_ERROR_COUNT := UNRECOVERABLE_PARSE_ERROR_COUNT st + c,
        UNRECOVERABLE_PATH := UNRECOVERABLE_PATH st \<union> names\<rparr>"

definition then_quarantined ::
  "nat \<Rightarrow> string set \<Rightarrow> py_error + json_object list \<times> loader_state \<Rightarrow>
   py_error + json_object list \<times> loader_state" where
  "then_quarantined c names res =
     (case res of Inl e \<Rightarrow> Inl e | Inr (records, st) \<Rightarrow> Inr (records, quarantined c names st))"

definition with_error ::
  "bool \<Rightarrow> py_error + json_object list \<times> loader_state \<times> bool \<Rightarrow>
   py_error + json_object list \<times> loader_state \<times> bool" where
  "with_error b res =
     (case res of Inl e \<Rightarrow> Inl e | Inr (records, st, error) \<Rightarrow> Inr (records, st, b \<or> error))"

section \<open>Example data\<close>

text \<open>
  The scenarios of the specification: a window of 60 seconds and a default event
  value of 0; instants are microseconds after \<open>t0\<close>.
\<close>

definition example_config :: config where
  "example_config =
     \<lparr>window = 60000000, DEFAULT_REWARD_KEY = ''reward'',
      DEFAULT_EVENTS_REWARD_VALUE = 0, DEFAULT_REWARD_VALUE = 0\<rparr>"

definition decision_at :: "string \<Rightarrow> int \<Rightarrow> string \<Rightarrow> history_record" where
  "decision_at m t k =
     \<lparr>payload = m, rec_type = Some ''decision'', timestamp = t, reward_key = Some k,
      rewards = None, properties = None, reward = None\<rparr>"

definition rewards_at :: "string \<Rightarrow> int \<Rightarrow> (string \<times> json) list \<Rightarrow> history_record" where
  "rewards_at m t items =
     \<lparr>payload = m, rec_type = Some ''rewards'', timestamp = t, reward_key = None,
      rewards = Some items, properties = None, reward = None\<rparr>"

definition event_at :: "string \<Rightarrow> int \<Rightarrow> properties option \<Rightarrow> history_record" where
  "event_at m t p =
     \<lparr>payload = m, rec_type = Some ''event'', timestamp = t, reward_key = None,
      rewards = None, properties = p, reward = None\<rparr>"

definition scenario_two_keys :: "history_record list" where
  "scenario_two_keys =
     [decision_at ''m1'' 0 ''a'', decision_at ''m2'' 5000000 ''b'',
      rewards_at ''m3'' 20000000 [(''a'', JNum 1), (''b'', JNum 2)]]"

definition scenario_same_instant :: "history_record list" where
  "scenario_same_instant =
     [decision_at ''m1'' 0 ''k'', rewards_at ''m2'' 0 [(''k'', JNum 1)]]"

definition scenario_default_key :: "history_record list" where
  "scenario_default_key =
     [(decision_at ''m1'' 0 ''a'')\<lparr>reward_key := None\<rparr>, decision_at ''m2'' 5000000 ''b'',
      rewards_at ''m3'' 20000000 [(''reward'', JNum 1), (''b'', JNum 2)]]"

definition example_object :: "string \<Rightarrow> timestamp_field \<Rightarrow> json_object" where
  "example_object m t =
     \<lparr>MESSAGE_ID_KEY = Some m, TIMESTAMP_KEY = t, TYPE_KEY = Some (String ''event''),
      HISTORY_ID_KEY = Some (String ''user''), MODEL_KEY = None, COUNT_KEY = None\<rparr>"

definition example_decision :: "scalar option \<Rightarrow> scalar option \<Rightarrow> json_object" where
  "example_decision model_val count_val =
     \<lparr>MESSAGE_ID_KEY = Some ''A'', TIMESTAMP_KEY = TsParsed 0, TYPE_KEY = Some (String ''decision''),
      HISTORY_ID_KEY = Some (String ''user''), MODEL_KEY = model_val, COUNT_KEY = count_val\<rparr>"

definition empty_state :: loader_state where
  "empty_state =
     \<lparr>message_ids = {}, DUPLICATE_MESSAGE_ID_COUNT = 0, RECORD_COUNT = 0,
      UNRECOVERABLE_PARSE_ERROR_COUNT = 0, UNRECOVERABLE_PATH = {}\<rparr>"

section \<open>Properties of the reward engine\<close>

text \<open>
  update_listeners yields the listeners that \<open>hit\<close> keeps; filtering twice is
  filtering once with the composed function.
\<close>

lemma update_listeners_map_filter:
  "update_listeners cfg ls record rv = Inr ls' \<Longrightarrow> ls' = List.map_filter (hit cfg record rv) ls"
  by (induction ls arbitrary: ls')
     (auto simp: List.map_filter_simps hit_def add_reward_def float_val_def
           split: sum.splits if_splits)

lemma map_filter_compose:
  "List.map_filter g (List.map_filter f xs) = List.map_filter (\<lambda>x. Option.bind (f x) g) xs"
  by (induction xs) (auto simp: List.map_filter_simps split: option.splits)

lemma map_filter_Some: "List.map_filter Some xs = xs"
  by (induction xs) (auto simp: List.map_filter_simps)

lemma map_filter_append:
  "List.map_filter f (xs @ ys) = List.map_filter f xs @ List.map_filter f ys"
  by (simp add: List.map_filter_def)

lemma dict_get_update:
  "dict_get (AList.update k v d) k' = (if k' = k then v else dict_get d k')"
  by (simp add: dict_get_def update_conv')

lemma apply_rewards_bucket:
  "apply_rewards cfg d record items = Inr d' \<Longrightarrow>
   dict_get d' k = List.map_filter (hits cfg record (map snd (filter (\<lambda>item. fst item = k) items))) (dict_get d k)"
proof (induction items arbitrary: d)
  case Nil
  have "hits cfg record [] = Some" by (rule ext) simp
  with Nil show ?case by (simp add: map_filter_Some)
next
  case (Cons item items)
  obtain k0 rv where item: "item = (k0, rv)" by (cases item)
  show ?case
  proof (cases "map_of d k0")
    case None
    with Cons.prems item have run: "apply_rewards cfg d record items = Inr d'" by simp
    show ?thesis
    proof (cases "k0 = k")
      case True
      with None have "dict_get d k = []" by (simp add: dict_get_def)
      moreover from Cons.IH[OF run] have "dict_get d' k = List.map_filter (hits cfg record (map snd (filter (\<lambda>item. fst item = k) items))) (dict_get d k)" .
      ultimately show ?thesis by (simp add: List.map_filter_simps)
    next
      case False
      with Cons.IH[OF run] item show ?thesis by simp
    qed
  next
    case (Some ls)
    with Cons.prems item obtain ls' where
      upd: "update_listeners cfg ls record rv = Inr ls'" and
      run: "apply_rewards cfg (AList.update k0 ls' d) record items = Inr d'"
      by (auto split: sum.splits)
    note ih = Cons.IH[OF run]
    show ?thesis
    proof (cases "k0 = k")
      case True
      from Some True have dk: "dict_get d k = ls" by (simp add: dict_get_def)
      have "ls' = List.map_filter (hit cfg record rv) ls"
        using upd by (rule update_listeners_map_filter)
      with ih True dk item show ?thesis
        by (simp add: dict_get_update map_filter_compose)
           (rule arg_cong2[where f = List.map_filter], auto split: option.splits simp: fun_eq_iff Option.bind_def)
    next
      case False
      with ih item show ?thesis by (simp add: dict_get_update)
    qed
  qed
qed

lemma apply_event_bucket:
  "apply_event cfg d record rv = Inr d' \<Longrightarrow>
   dict_get d' k = List.map_filter (hit cfg record rv) (dict_get d k)"
proof (induction d arbitrary: d')
  case Nil
  then show ?case by (simp add: dict_get_def List.map_filter_simps)
next
  case (Cons entry d)
  obtain k0 ls where entry: "entry = (k0, ls)" by (cases entry)
  from Cons.prems entry obtain ls' d1 where
    upd: "update_listeners cfg ls record rv = Inr ls'" and
    run: "apply_event cfg d record rv = Inr d1" and
    d': "d' = (k0, ls') # d1"
    by (auto split: sum.splits)
  have "ls' = List.map_filter (hit cfg record rv) ls"
    using upd by (rule update_listeners_map_filter)
  with Cons.IH[OF run] entry d' show ?case
    by (simp add: dict_get_def)
qed

lemma assign_step_bucket:
  assumes "assign_step cfg d record = Inr d'"
  shows "dict_get d' k =
           List.map_filter (hits cfg record (values_for cfg k record)) (dict_get d k) @
           (if rec_type record = Some ''decision'' \<and> key_of cfg record = k then [record] else [])"
proof -
  have none: "hits cfg record [] = Some" by (rule ext) simp
  have one: "hits cfg record [rv] = hit cfg record rv" for rv
    by (rule ext) (simp split: option.splits)
  consider (dec) "rec_type record = Some ''decision''"
    | (rew) "rec_type record = Some ''rewards''"
    | (evt) "rec_type record = Some ''event''"
    | (other) "rec_type record \<noteq> Some ''decision''" "rec_type record \<noteq> Some ''rewards''"
        "rec_type record \<noteq> Some ''event''"
    by blast
  then show ?thesis
  proof cases
    case dec
    with assms have "d' = AList.update (key_of cfg record) (dict_get d (key_of cfg record) @ [record]) d"
      by (simp add: assign_step_def)
    with dec show ?thesis
      by (simp add: dict_get_update values_for_def none map_filter_Some)
  next
    case rew
    with assms obtain items where items: "rewards record = Some items"
      and run: "apply_rewards cfg d record items = Inr d'"
      by (auto simp: assign_step_def split: option.splits)
    from apply_rewards_bucket[OF run, of k] rew items show ?thesis
      by (simp add: values_for_def)
  next
    case evt
    with assms have run: "apply_event cfg d record (event_value cfg record) = Inr d'"
      by (simp add: assign_step_def)
    from apply_event_bucket[OF run, of k] evt show ?thesis
      by (simp add: values_for_def one)
  next
    case other
    with assms show ?thesis by (simp add: assign_step_def)
  qed
qed

lemma fate_Cons_fun:
  "fate cfg k (record # records) =
     (\<lambda>l. Option.bind (hits cfg record (values_for cfg k record) l) (fate cfg k records))"
  by (rule ext) (simp add: Option.bind_def split: option.splits)

lemma assign_loop_bucket:
  "assign_loop cfg d records = Inr d' \<Longrightarrow>
   dict_get d' k = List.map_filter (fate cfg k records) (dict_get d k) @ enrolled cfg k records"
proof (induction records arbitrary: d)
  case Nil
  have "fate cfg k [] = Some" by (rule ext) simp
  with Nil show ?case by (simp add: map_filter_Some)
next
  case (Cons r records)
  from Cons.prems obtain d1 where
    step: "assign_step cfg d r = Inr d1" and
    run: "assign_loop cfg d1 records = Inr d'"
    by (auto split: sum.splits)
  have "dict_get d' k = List.map_filter (fate cfg k records) (dict_get d1 k) @ enrolled cfg k records"
    using run by (rule Cons.IH)
  also have "dict_get d1 k =
      List.map_filter (hits cfg r (values_for cfg k r)) (dict_get d k) @
      (if rec_type r = Some ''decision'' \<and> key_of cfg r = k then [r] else [])"
    using step by (rule assign_step_bucket)
  finally show ?case
    by (simp add: map_filter_append map_filter_compose fate_Cons_fun List.map_filter_simps
             split: option.splits)
qed

lemma expired_add_reward [simp]: "expired cfg (add_reward cfg v l) r = expired cfg l r"
  by (simp add: expired_def add_reward_def)

lemma get_reward_add_reward [simp]: "get_reward cfg (add_reward cfg v l) = get_reward cfg l + v"
  by (simp add: get_reward_def add_reward_def)

lemma add_reward_twice [simp]:
  "add_reward cfg w (add_reward cfg v l) = add_reward cfg (v + w) l"
  by (simp add: add_reward_def get_reward_def add.assoc)

lemma hits_closed:
  "hits cfg r vs l =
     (if vs = [] then Some l
      else if expired cfg l r then None
      else Some (add_reward cfg (sum_list (map float_val vs)) l))"
proof (induction vs arbitrary: l)
  case Nil
  show ?case by simp
next
  case (Cons v vs)
  show ?case
    by (cases "vs = []") (simp_all add: Cons.IH hit_def)
qed

lemma contribution_silent:
  "\<forall>r\<in>set rs. values_for cfg k r = [] \<Longrightarrow> sum_list (map (contribution cfg k) rs) = 0"
  by (induction rs) (simp_all add: contribution_def)

lemma fate_closed:
  "fate cfg k rs l =
     (if dropped cfg k rs l then None
      else if \<forall>r\<in>set rs. values_for cfg k r = [] then Some l
      else Some (add_reward cfg (sum_list (map (contribution cfg k) rs)) l))"
proof (induction rs arbitrary: l)
  case Nil
  show ?case by (simp add: dropped_def)
next
  case (Cons r rs)
  have d: "dropped cfg k rs (add_reward cfg v l) = dropped cfg k rs l" for v
    by (simp add: dropped_def)
  note z = contribution_silent
  show ?case
  proof (cases "values_for cfg k r = []")
    case True
    then show ?thesis
      by (simp add: hits_closed Cons.IH dropped_def contribution_def)
  next
    case False
    then show ?thesis
      by (auto simp: hits_closed Cons.IH d z contribution_def dropped_def)
  qed
qed

lemma enrolled_position:
  "D \<in> set (enrolled cfg k rs) \<Longrightarrow>
   \<exists>i<length rs. rec_type (rs ! i) = Some ''decision'' \<and> key_of cfg (rs ! i) = k \<and>
      fate cfg k (drop (Suc i) rs) (rs ! i) = Some D"
proof (induction rs)
  case Nil
  then show ?case by simp
next
  case (Cons r rs)
  have mem: "D \<in> set (enrolled cfg k (r # rs))" by (rule Cons.prems)
  have
    "(rec_type r = Some ''decision'' \<and> key_of cfg r = k \<and> fate cfg k rs r = Some D) \<or>
     D \<in> set (enrolled cfg k rs)"
  proof (cases "rec_type r = Some ''decision'' \<and> key_of cfg r = k")
    case True
    show ?thesis
    proof (cases "fate cfg k rs r")
      case None
      with mem True show ?thesis by simp
    next
      case (Some l)
      with mem True show ?thesis by auto
    qed
  next
    case False
    with mem show ?thesis by auto
  qed
  then consider
    (head) "rec_type r = Some ''decision''" "key_of cfg r = k" "fate cfg k rs r = Some D"
    | (tail) "D \<in> set (enrolled cfg k rs)"
    by blast
  then show ?case
  proof cases
    case head
    then have "0 < length (r # rs) \<and> rec_type ((r # rs) ! 0) = Some ''decision'' \<and>
        key_of cfg ((r # rs) ! 0) = k \<and> fate cfg k (drop (Suc 0) (r # rs)) ((r # rs) ! 0) = Some D"
      by simp
    then show ?thesis by blast
  next
    case tail
    from Cons.IH[OF tail] obtain i where "i < length rs"
      "rec_type (rs ! i) = Some ''decision''" "key_of cfg (rs ! i) = k"
      "fate cfg k (drop (Suc i) rs) (rs ! i) = Some D"
      by blast
    then have "Suc i < length (r # rs) \<and> rec_type ((r # rs) ! Suc i) = Some ''decision'' \<and>
        key_of cfg ((r # rs) ! Suc i) = k \<and>
        fate cfg k (drop (Suc (Suc i)) (r # rs)) ((r # rs) ! Suc i) = Some D"
      by simp
    then show ?thesis by blast
  qed
qed

lemma sum_list_filter_nonzero:
  "(\<And>x. x \<in> set xs \<Longrightarrow> f x \<noteq> 0 \<Longrightarrow> P x) \<Longrightarrow>
   sum_list (map f (filter P xs)) = (sum_list (map f xs) :: real)"
  by (induction xs) auto

lemma apply_rewards_keys:
  "apply_rewards cfg d r items = Inr d' \<Longrightarrow> map fst d' = map fst d"
proof (induction items arbitrary: d)
  case Nil
  then show ?case by simp
next
  case (Cons item items)
  obtain k0 rv where item: "item = (k0, rv)" by (cases item)
  show ?case
  proof (cases "map_of d k0")
    case None
    with Cons item show ?thesis by simp
  next
    case (Some ls)
    with Cons.prems item obtain ls' where
      run: "apply_rewards cfg (AList.update k0 ls' d) r items = Inr d'"
      by (auto split: sum.splits)
    from Some have "(k0, ls) \<in> set d" by (rule map_of_SomeD)
    then have "k0 \<in> fst ` set d" by force
    then have "map fst (AList.update k0 ls' d) = map fst d"
      by (simp add: update_keys)
    with Cons.IH[OF run] show ?thesis by simp
  qed
qed

lemma apply_event_keys:
  "apply_event cfg d r rv = Inr d' \<Longrightarrow> map fst d' = map fst d"
  by (induction d arbitrary: d') (auto split: sum.splits)

lemma assign_step_keys:
  assumes "assign_step cfg d r = Inr d'"
  shows "fst ` set d' =
           fst ` set d \<union> (if rec_type r = Some ''decision'' then {key_of cfg r} else {})"
    and "distinct (map fst d) \<Longrightarrow> distinct (map fst d')"
proof -
  consider (dec) "rec_type r = Some ''decision''"
    | (rew) "rec_type r \<noteq> Some ''decision''" "rec_type r = Some ''rewards''"
    | (evt) "rec_type r \<noteq> Some ''decision''" "rec_type r \<noteq> Some ''rewards''"
    by blast
  then have "fst ` set d' =
           fst ` set d \<union> (if rec_type r = Some ''decision'' then {key_of cfg r} else {}) \<and>
           (distinct (map fst d) \<longrightarrow> distinct (map fst d'))"
  proof cases
    case dec
    with assms have "d' = AList.update (key_of cfg r) (dict_get d (key_of cfg r) @ [r]) d"
      by (simp add: assign_step_def)
    then have "set (map fst d') = set (map fst d) \<union> {key_of cfg r}"
      and "distinct (map fst d) \<longrightarrow> distinct (map fst d')"
      by (auto simp: update_keys distinct_update)
    with dec show ?thesis by simp
  next
    case rew
    with assms obtain items where "apply_rewards cfg d r items = Inr d'"
      by (auto simp: assign_step_def split: option.splits)
    then have "map fst d' = map fst d" by (rule apply_rewards_keys)
    then have "fst ` set d' = fst ` set d \<and> (distinct (map fst d) \<longrightarrow> distinct (map fst d'))"
      by (metis set_map)
    with rew show ?thesis by simp
  next
    case evt
    with assms have "apply_event cfg d r (event_value cfg r) = Inr d'"
      by (auto simp: assign_step_def split: if_splits)
    then have "map fst d' = map fst d" by (rule apply_event_keys)
    then have "fst ` set d' = fst ` set d \<and> (distinct (map fst d) \<longrightarrow> distinct (map fst d'))"
      by (metis set_map)
    with evt show ?thesis by simp
  qed
  then show "fst ` set d' =
           fst ` set d \<union> (if rec_type r = Some ''decision'' then {key_of cfg r} else {})"
    and "distinct (map fst d) \<Longrightarrow> distinct (map fst d')"
    by simp_all
qed

lemma assign_loop_keys:
  "assign_loop cfg d rs = Inr d' \<Longrightarrow>
   fst ` set d' = fst ` set d \<union> key_of cfg ` {r \<in> set rs. rec_type r = Some ''decision''}"
proof (induction rs arbitrary: d)
  case Nil
  then show ?case by simp
next
  case (Cons r rs)
  from Cons.prems obtain d1 where
    step: "assign_step cfg d r = Inr d1" and
    run: "assign_loop cfg d1 rs = Inr d'"
    by (auto split: sum.splits)
  from Cons.IH[OF run] assign_step_keys(1)[OF step] show ?case
    by auto
qed

lemma assign_loop_distinct:
  "assign_loop cfg d rs = Inr d' \<Longrightarrow> distinct (map fst d) \<Longrightarrow> distinct (map fst d')"
proof (induction rs arbitrary: d)
  case Nil
  then show ?case by simp
next
  case (Cons r rs)
  from Cons.prems obtain d1 where
    step: "assign_step cfg d r = Inr d1" and
    run: "assign_loop cfg d1 rs = Inr d'"
    by (auto split: sum.splits)
  from Cons.IH[OF run] assign_step_keys(2)[OF step] Cons.prems(2) show ?case
    by blast
qed

lemma assign_rewards_bucket:
  assumes run: "assign_rewards_to_decisions cfg records = Inr d"
  shows "dict_get d k = enrolled cfg k records"
    and "(k, ds) \<in> set d \<Longrightarrow> dict_get d k = ds"
proof -
  from run have loop: "assign_loop cfg [] records = Inr d"
    by (simp add: assign_rewards_to_decisions_def)
  from assign_loop_bucket[OF loop, of k] show "dict_get d k = enrolled cfg k records"
    by (simp add: dict_get_def List.map_filter_simps)
  from assign_loop_distinct[OF loop] have "distinct (map fst d)" by simp
  then show "(k, ds) \<in> set d \<Longrightarrow> dict_get d k = ds"
    by (simp add: dict_get_def)
qed

lemma sorted_after:
  assumes "sorted (map timestamp records)" and "i < length records"
    and "r \<in> set (drop (Suc i) records)"
  shows "timestamp (records ! i) \<le> timestamp r"
proof -
  from assms(2) have "records = take i records @ records ! i # drop (Suc i) records"
    by (rule id_take_nth_drop)
  then have "sorted (map timestamp (take i records @ records ! i # drop (Suc i) records))"
    using assms(1) by simp
  with assms(3) show ?thesis
    by (auto simp: sorted_append)
qed

lemmas example_defs =
  example_config_def decision_at_def rewards_at_def event_at_def
  assign_rewards_to_decisions_def assign_step_def key_of_def dict_get_def expired_def
  get_reward_def add_reward_def event_value_def

lemma map_filter_hit:
  "List.map_filter (hit cfg r rv) ls =
     map (add_reward cfg (float_val rv)) (filter (\<lambda>l. \<not> expired cfg l r) ls)"
  by (induction ls) (simp_all add: List.map_filter_simps hit_def)

lemma update_listeners_number:
  "py_float rv = Inr v \<Longrightarrow>
   update_listeners cfg ls r rv =
     Inr (map (add_reward cfg v) (filter (\<lambda>l. \<not> expired cfg l r) ls))"
  by (induction ls) simp_all

lemma apply_event_number:
  "py_float rv = Inr v \<Longrightarrow>
   apply_event cfg d r rv =
     Inr (map (\<lambda>(k, ls). (k, map (add_reward cfg v) (filter (\<lambda>l. \<not> expired cfg l r) ls))) d)"
  by (induction d) (auto simp: update_listeners_number)

lemma apply_rewards_numbers:
  "list_all (\<lambda>item. snd item \<noteq> JNull) items \<Longrightarrow> \<exists>d'. apply_rewards cfg d r items = Inr d'"
proof (induction items arbitrary: d)
  case Nil
  show ?case by simp
next
  case (Cons item items)
  obtain k rv where item: "item = (k, rv)" by (cases item)
  with Cons.prems obtain v where v: "py_float rv = Inr v"
    by (cases rv) auto
  from Cons.prems have rest: "list_all (\<lambda>item. snd item \<noteq> JNull) items" by simp
  show ?case
    using Cons.IH[OF rest] item v
    by (cases "map_of d k") (simp_all add: update_listeners_number)
qed

text \<open>
  The engine returns a result on every list of well formed records: an exception is
  raised only for an unknown type, a rewards record without \<open>rewards\<close>, or a value
  that \<open>float\<close> rejects.
\<close>

lemma assign_step_total:
  assumes "well_formed cfg r"
  shows "\<exists>d'. assign_step cfg d r = Inr d'"
proof -
  from assms consider (dec) "rec_type r = Some ''decision''"
    | (rew) items where "rec_type r = Some ''rewards''" "rewards r = Some items"
        "list_all (\<lambda>item. snd item \<noteq> JNull) items"
    | (evt) "rec_type r = Some ''event''" "event_value cfg r \<noteq> JNull"
    by (auto simp: well_formed_def split: option.splits)
  then show ?thesis
  proof cases
    case dec
    then show ?thesis by (simp add: assign_step_def)
  next
    case rew
    with apply_rewards_numbers[of items cfg d r] show ?thesis
      by (simp add: assign_step_def)
  next
    case evt
    then obtain v where "py_float (event_value cfg r) = Inr v"
      by (cases "event_value cfg r") auto
    with evt show ?thesis
      by (simp add: assign_step_def apply_event_number)
  qed
qed

lemma assign_loop_total:
  "\<forall>r\<in>set records. well_formed cfg r \<Longrightarrow> \<exists>d'. assign_loop cfg d records = Inr d'"
proof (induction records arbitrary: d)
  case Nil
  show ?case by simp
next
  case (Cons r records)
  then obtain d1 where "assign_step cfg d r = Inr d1"
    using assign_step_total[of cfg r d] by auto
  with Cons show ?case by simp
qed

lemma enrolled_snoc_decision:
  assumes "rec_type d = Some ''decision''"
  shows "\<exists>pre. enrolled cfg (key_of cfg d) (records @ [d]) = pre @ [d]"
proof (induction records)
  case Nil
  from assms show ?case by simp
next
  case (Cons r records)
  then obtain pre where "enrolled cfg (key_of cfg d) (records @ [d]) = pre @ [d]" by blast
  then have "enrolled cfg (key_of cfg d) ((r # records) @ [d]) =
      ((if rec_type r = Some ''decision'' \<and> key_of cfg r = key_of cfg d
        then (case fate cfg (key_of cfg d) (records @ [d]) r of None \<Rightarrow> [] | Some l \<Rightarrow> [l])
        else []) @ pre) @ [d]"
    by simp
  then show ?case by blast
qed

lemma apply_rewards_unmatched:
  "\<forall>item\<in>set items. map_of d (fst item) = None \<Longrightarrow> apply_rewards cfg d r items = Inr d"
  by (induction items) auto

lemma scenario_two_keys_run:
  "assign_rewards_to_decisions example_config scenario_two_keys =
     Inr [(''a'', [(decision_at ''m1'' 0 ''a'')\<lparr>reward := Some 1\<rparr>]),
          (''b'', [(decision_at ''m2'' 5000000 ''b'')\<lparr>reward := Some 2\<rparr>])]"
  by (simp add: scenario_two_keys_def example_defs)

lemma scenario_default_key_run:
  "assign_rewards_to_decisions example_config scenario_default_key =
     Inr [(''reward'', [(decision_at ''m1'' 0 ''a'')\<lparr>reward_key := None, reward := Some 1\<rparr>]),
          (''b'', [(decision_at ''m2'' 5000000 ''b'')\<lparr>reward := Some 2\<rparr>])]"
  by (simp add: scenario_default_key_def example_defs)

text \<open>
  The cases of test_update_listeners in tests/test_worker.py: two listeners at the
  base time; a reward one second before the end of the window is added to both, as
  1 for \<open>True\<close>, 0 for \<open>False\<close> and 5.3 for the number; a reward one second after
  the end of the window leaves no listener.
\<close>

lemma test_update_listeners:
  "update_listeners example_config [decision_at ''m1'' 0 ''k'', decision_at ''m2'' 0 ''k'']
     (rewards_at ''m3'' 59000000 []) (JBool True) =
   Inr [(decision_at ''m1'' 0 ''k'')\<lparr>reward := Some 1\<rparr>,
        (decision_at ''m2'' 0 ''k'')\<lparr>reward := Some 1\<rparr>]"
  "update_listeners example_config [decision_at ''m1'' 0 ''k'', decision_at ''m2'' 0 ''k'']
     (rewards_at ''m3'' 59000000 []) (JBool False) =
   Inr [(decision_at ''m1'' 0 ''k'')\<lparr>reward := Some 0\<rparr>,
        (decision_at ''m2'' 0 ''k'')\<lparr>reward := Some 0\<rparr>]"
  "update_listeners example_config [decision_at ''m1'' 0 ''k'', decision_at ''m2'' 0 ''k'']
     (rewards_at ''m3'' 59000000 []) (JNum 5.3) =
   Inr [(decision_at ''m1'' 0 ''k'')\<lparr>reward := Some 5.3\<rparr>,
        (decision_at ''m2'' 0 ''k'')\<lparr>reward := Some 5.3\<rparr>]"
  "update_listeners example_config [decision_at ''m1'' 0 ''k'', decision_at ''m2'' 0 ''k'']
     (rewards_at ''m3'' 61000000 []) (JNum 5.3) = Inr []"
  by (simp_all add: example_defs)

section \<open>Properties of the loader and the validator\<close>

text \<open>
  The flag \<open>error\<close> only collects: the records and the state of a run do not depend
  on it. Lines that are passed over can be left out of the file; what remains of them
  is the flag. The counters and the directory of unrecoverable files are not read
  while lines are loaded.
\<close>

lemma with_error_simps [simp]:
  "with_error b (Inl e) = Inl e"
  "with_error b (Inr (rs, s, e')) = Inr (rs, s, b \<or> e')"
  by (simp_all add: with_error_def)

lemma with_error_twice [simp]: "with_error a (with_error b res) = with_error (a \<or> b) res"
  by (cases res) auto

lemma read_lines_flag:
  "read_lines lines (records, st, error) = with_error error (read_lines lines (records, st, False))"
proof (induction lines arbitrary: records st error)
  case Nil
  show ?case by simp
next
  case (Cons l lines)
  show ?case
  proof (cases l)
    case Malformed
    have "read_lines (l # lines) (records, st, error) = read_lines lines (records, st, True)"
      by (simp add: Malformed)
    also have "\<dots> = with_error True (read_lines lines (records, st, False))"
      by (rule Cons.IH)
    finally have lhs: "read_lines (l # lines) (records, st, error) =
        with_error True (read_lines lines (records, st, False))" .
    have "read_lines (l # lines) (records, st, False) = read_lines lines (records, st, True)"
      by (simp add: Malformed)
    also have "\<dots> = with_error True (read_lines lines (records, st, False))"
      by (rule Cons.IH)
    finally show ?thesis by (simp add: lhs)
  next
    case (Object obj)
    show ?thesis
    proof (cases "TIMESTAMP_KEY obj")
      case TsMissing
      with Object show ?thesis by simp
    next
      case TsNull
      with Object show ?thesis by simp
    next
      case TsOverflow
      with Object show ?thesis by simp
    next
      case TsUnparseable
      have "read_lines (l # lines) (records, st, error) = read_lines lines (records, st, True)"
        by (simp add: Object TsUnparseable)
      also have "\<dots> = with_error True (read_lines lines (records, st, False))"
        by (rule Cons.IH)
      finally have lhs: "read_lines (l # lines) (records, st, error) =
          with_error True (read_lines lines (records, st, False))" .
      have "read_lines (l # lines) (records, st, False) = read_lines lines (records, st, True)"
        by (simp add: Object TsUnparseable)
      also have "\<dots> = with_error True (read_lines lines (records, st, False))"
        by (rule Cons.IH)
      finally show ?thesis by (simp add: lhs)
    next
      case (TsParsed t)
      show ?thesis
      proof (cases "MESSAGE_ID_KEY obj")
        case None
        with Object TsParsed show ?thesis by simp
      next
        case (Some m)
        with Object TsParsed show ?thesis
          by (simp add: Cons.IH[of _ _ error])
      qed
    qed
  qed
qed

lemma read_lines_skip:
  assumes P: "\<And>l. P l \<Longrightarrow> skipped l"
  shows "read_lines lines (records, st, error) =
     with_error (\<exists>l\<in>set lines. P l) (read_lines (filter (\<lambda>l. \<not> P l) lines) (records, st, error))"
proof (induction lines arbitrary: records st error)
  case Nil
  show ?case by simp
next
  case (Cons l lines)
  let ?rest = "filter (\<lambda>l. \<not> P l) lines"
  show ?case
  proof (cases "P l")
    case True
    with P have "skipped l" by blast
    then have "read_lines (l # lines) (records, st, error) = read_lines lines (records, st, True)"
      by (cases l) auto
    also have "\<dots> = with_error True (read_lines lines (records, st, error))"
      by (subst read_lines_flag, subst (2) read_lines_flag) simp
    also have "read_lines lines (records, st, error) =
        with_error (\<exists>l\<in>set lines. P l) (read_lines ?rest (records, st, error))"
      by (rule Cons.IH)
    finally show ?thesis using True by simp
  next
    case False
    show ?thesis
    proof (cases l)
      case Malformed
      with False show ?thesis by (simp add: Cons.IH)
    next
      case (Object obj)
      with False show ?thesis
        by (simp add: Cons.IH split: timestamp_field.splits option.splits)
    qed
  qed
qed

lemma then_quarantined_simps [simp]:
  "then_quarantined c names (Inl e) = Inl e"
  "then_quarantined c names (Inr (records, st)) = Inr (records, quarantined c names st)"
  by (simp_all add: then_quarantined_def)

lemma read_lines_quarantined:
  "read_lines lines (records, quarantined c names st, error) =
     (case read_lines lines (records, st, error) of
        Inl e \<Rightarrow> Inl e
      | Inr (records', st', error') \<Rightarrow> Inr (records', quarantined c names st', error'))"
proof (induction lines arbitrary: records st error)
  case Nil
  show ?case by simp
next
  case (Cons l lines)
  have ids: "message_ids (quarantined c names st) = message_ids st"
    by (simp add: quarantined_def)
  have ins: "quarantined c names st\<lparr>message_ids := M\<rparr> = quarantined c names (st\<lparr>message_ids := M\<rparr>)" for M
    by (simp add: quarantined_def)
  have dup: "quarantined c names st
        \<lparr>DUPLICATE_MESSAGE_ID_COUNT := Suc (DUPLICATE_MESSAGE_ID_COUNT (quarantined c names st))\<rparr> =
      quarantined c names (st\<lparr>DUPLICATE_MESSAGE_ID_COUNT := Suc (DUPLICATE_MESSAGE_ID_COUNT st)\<rparr>)"
    by (simp add: quarantined_def)
  show ?case
  proof (cases l)
    case Malformed
    then show ?thesis by (simp add: Cons.IH)
  next
    case (Object obj)
    then show ?thesis
      by (simp add: Cons.IH ids ins dup split: timestamp_field.splits option.splits)
  qed
qed

lemma load_records_quarantined:
  "load_records file (quarantined c names st) = then_quarantined c names (load_records file st)"
proof (cases "content file")
  case Corrupt
  then show ?thesis
    by (simp add: load_records_def quarantined_def copy_to_unrecoverable_def Let_def)
next
  case (Lines lines)
  show ?thesis
  proof (cases "read_lines lines ([], st, False)")
    case (Inl e)
    with Lines show ?thesis
      by (simp add: load_records_def read_lines_quarantined)
  next
    case (Inr res)
    obtain records st1 error where "res = (records, st1, error)" by (cases res)
    with Inr Lines have "load_records file (quarantined c names st) =
        (let st2 =
               (if error then
                  copy_to_unrecoverable file
                    ((quarantined c names st1)\<lparr>UNRECOVERABLE_PARSE_ERROR_COUNT :=
                       UNRECOVERABLE_PARSE_ERROR_COUNT (quarantined c names st1) + 1\<rparr>)
                else quarantined c names st1)
         in Inr (records, st2\<lparr>RECORD_COUNT := RECORD_COUNT st2 + length records\<rparr>))"
      by (simp add: load_records_def read_lines_quarantined)
    also have "\<dots> = then_quarantined c names (load_records file st)"
      using Inr Lines \<open>res = (records, st1, error)\<close>
      by (simp add: load_records_def quarantined_def copy_to_unrecoverable_def Let_def)
    finally show ?thesis .
  qed
qed

lemma read_lines_error:
  "read_lines lines (records, st, error) = Inr (records', st', error') \<Longrightarrow>
   error' = (error \<or> (\<exists>l\<in>set lines. skipped l))"
proof (induction lines arbitrary: records st error)
  case Nil
  then show ?case by simp
next
  case (Cons l lines)
  show ?case
  proof (cases l)
    case Malformed
    with Cons.prems Cons.IH[of records st True] show ?thesis by simp
  next
    case (Object obj)
    with Cons.prems Cons.IH show ?thesis
      by (auto split: timestamp_field.splits option.splits if_splits)
  qed
qed

lemma read_lines_frame:
  "read_lines lines (records, st, error) = Inr (records', st', error') \<Longrightarrow>
   UNRECOVERABLE_PARSE_ERROR_COUNT st' = UNRECOVERABLE_PARSE_ERROR_COUNT st \<and>
   UNRECOVERABLE_PATH st' = UNRECOVERABLE_PATH st"
proof (induction lines arbitrary: records st error)
  case Nil
  then show ?case by simp
next
  case (Cons l lines)
  show ?case
  proof (cases l)
    case Malformed
    with Cons.prems Cons.IH[of records st True] show ?thesis by simp
  next
    case (Object obj)
    show ?thesis
    proof (cases "TIMESTAMP_KEY obj")
      case TsMissing
      with Cons.prems Object show ?thesis by simp
    next
      case TsNull
      with Cons.prems Object show ?thesis by simp
    next
      case TsOverflow
      with Cons.prems Object show ?thesis by simp
    next
      case TsUnparseable
      with Cons.prems Object Cons.IH[of records st True] show ?thesis by simp
    next
      case (TsParsed t)
      show ?thesis
      proof (cases "MESSAGE_ID_KEY obj")
        case None
        with Cons.prems Object TsParsed show ?thesis by simp
      next
        case (Some m)
        show ?thesis
        proof (cases "m \<in> message_ids st")
          case True
          with Cons.prems Object TsParsed Some
            Cons.IH[of records "st\<lparr>DUPLICATE_MESSAGE_ID_COUNT := DUPLICATE_MESSAGE_ID_COUNT st + 1\<rparr>" error]
          show ?thesis by simp
        next
          case False
          with Cons.prems Object TsParsed Some
            Cons.IH[of "records @ [obj]" "st\<lparr>message_ids := insert m (message_ids st)\<rparr>" error]
          show ?thesis by simp
        qed
      qed
    qed
  qed
qed

lemma load_records_skip:
  assumes P: "\<And>l. P l \<Longrightarrow> skipped l"
    and lines: "content file = Lines lines"
    and some: "\<exists>l\<in>set lines. P l"
  shows "load_records file st =
     then_quarantined (if \<exists>l\<in>set lines. skipped l \<and> \<not> P l then 0 else 1) {file_name file}
       (load_records (file\<lparr>content := Lines (filter (\<lambda>l. \<not> P l) lines)\<rparr>) st)"
proof -
  let ?kept = "filter (\<lambda>l. \<not> P l) lines"
  have split: "read_lines lines ([], st, False) = with_error True (read_lines ?kept ([], st, False))"
    using read_lines_skip[of P lines "[]" st False, OF P] some by simp
  show ?thesis
  proof (cases "read_lines ?kept ([], st, False)")
    case (Inl e)
    with split lines show ?thesis by (simp add: load_records_def)
  next
    case (Inr res)
    obtain records st1 error where res: "res = (records, st1, error)" by (cases res)
    from Inr res have error: "error = (\<exists>l\<in>set ?kept. skipped l)"
      using read_lines_error by fastforce
    from Inr res have frame: "UNRECOVERABLE_PARSE_ERROR_COUNT st1 = UNRECOVERABLE_PARSE_ERROR_COUNT st"
      "UNRECOVERABLE_PATH st1 = UNRECOVERABLE_PATH st"
      using read_lines_frame by fastforce+
    show ?thesis
    proof (cases error)
      case True
      with error have "\<exists>l\<in>set lines. skipped l \<and> \<not> P l" by auto
      with True Inr res split lines show ?thesis
        by (simp add: load_records_def Let_def quarantined_def copy_to_unrecoverable_def)
    next
      case False
      with error have "\<not> (\<exists>l\<in>set lines. skipped l \<and> \<not> P l)" by auto
      with False Inr res split lines show ?thesis
        by (simp add: load_records_def Let_def quarantined_def copy_to_unrecoverable_def)
    qed
  qed
qed

lemma load_files_quarantined:
  "load_files files (records, quarantined c names st) =
     then_quarantined c names (load_files files (records, st))"
proof (induction files arbitrary: records st)
  case Nil
  show ?case by simp
next
  case (Cons f files)
  show ?case
  proof (cases "load_records f st")
    case (Inl e)
    then show ?thesis by (simp add: load_records_quarantined)
  next
    case (Inr res)
    obtain loaded st' where "res = (loaded, st')" by (cases res)
    with Inr show ?thesis by (simp add: load_records_quarantined Cons.IH)
  qed
qed

lemma load_files_append:
  "load_files (xs @ ys) acc =
     (case load_files xs acc of Inl e \<Rightarrow> Inl e | Inr acc' \<Rightarrow> load_files ys acc')"
proof (induction xs arbitrary: acc)
  case Nil
  show ?case by simp
next
  case (Cons f xs)
  obtain records st where acc: "acc = (records, st)" by (cases acc)
  show ?case
    by (cases "load_records f st") (auto simp: acc Cons.IH)
qed

lemma load_history_skip:
  assumes P: "\<And>l. P l \<Longrightarrow> skipped l"
    and lines: "content file = Lines lines"
    and some: "\<exists>l\<in>set lines. P l"
  shows "load_history (before @ file # after) st =
     then_quarantined (if \<exists>l\<in>set lines. skipped l \<and> \<not> P l then 0 else 1) {file_name file}
       (load_history (before @ file\<lparr>content := Lines (filter (\<lambda>l. \<not> P l) lines)\<rparr> # after) st)"
proof -
  let ?file' = "file\<lparr>content := Lines (filter (\<lambda>l. \<not> P l) lines)\<rparr>"
  let ?c = "if \<exists>l\<in>set lines. skipped l \<and> \<not> P l then 0 else 1 :: nat"
  let ?start = "([], st\<lparr>message_ids := {}\<rparr>)"
  show ?thesis
  proof (cases "load_files before ?start")
    case (Inl e)
    then show ?thesis by (simp add: load_history_def load_files_append)
  next
    case (Inr acc)
    obtain records st1 where acc: "acc = (records, st1)" by (cases acc)
    have one: "load_records file st1 = then_quarantined ?c {file_name file} (load_records ?file' st1)"
      using P lines some by (rule load_records_skip)
    show ?thesis
    proof (cases "load_records ?file' st1")
      case (Inl e)
      with Inr acc one show ?thesis
        by (simp add: load_history_def load_files_append)
    next
      case (Inr res)
      obtain loaded st2 where "res = (loaded, st2)" by (cases res)
      with Inr \<open>load_files before ?start = Inr acc\<close> acc one show ?thesis
        by (simp add: load_history_def load_files_append load_files_quarantined)
    qed
  qed
qed

lemmas loader_defs =
  load_records_def load_history_def copy_to_unrecoverable_def quarantined_def
  example_object_def example_decision_def empty_state_def unparseable_def Let_def

lemma missing_timestamp_leaves_load_history:
  "load_history
     [\<lparr>file_name = ''h-1.jsonl.gz'',
       content = Lines [Object (example_object ''A'' TsMissing),
                        Object (example_object ''B'' (TsParsed 0))]\<rparr>] empty_state =
   Inl KeyError"
  by (simp add: loader_defs)

lemma timestamp_overflow_leaves_load_history:
  "load_history
     [\<lparr>file_name = ''h-1.jsonl.gz'',
       content = Lines [Object (example_object ''A'' TsOverflow),
                        Object (example_object ''B'' (TsParsed 0))]\<rparr>] empty_state =
   Inl OverflowError"
  by (simp add: loader_defs)


lemma decision_without_model_dropped:
  assumes "TYPE_KEY obj = Some (String ''decision'')" and "MODEL_KEY obj = None"
  shows "filter_loop sha256_hexdigest hashed_history_id (before @ obj # after) ([], None, 0) =
     (case filter_loop sha256_hexdigest hashed_history_id (before @ after) ([], None, 0) of
        (results, skipped_record_count) \<Rightarrow> (results, skipped_record_count + 1))"
proof -
  have "filter_loop sha256_hexdigest hashed_history_id (xs @ obj # after) (rs, h, n) =
     (case filter_loop sha256_hexdigest hashed_history_id (xs @ after) (rs, h, n) of
        (results, skipped_record_count) \<Rightarrow> (results, skipped_record_count + 1))" for xs rs h n
  proof (induction xs arbitrary: rs h n)
    case Nil
    have bump: "filter_loop sha256_hexdigest hashed_history_id ys (rs, h, Suc n) =
       (case filter_loop sha256_hexdigest hashed_history_id ys (rs, h, n) of
          (results, skipped_record_count) \<Rightarrow> (results, skipped_record_count + 1))" for ys rs h n
      by (induction ys arbitrary: rs h n) (auto split: sum.splits prod.splits)
    from assms have "validate_record sha256_hexdigest obj h hashed_history_id = Inl ValueError"
      by (simp add: validate_record_def)
    then show ?case by (simp add: bump)
  next
    case (Cons x xs)
    show ?case
      by (cases "validate_record sha256_hexdigest x h hashed_history_id") (simp_all add: Cons.IH)
  qed
  then show ?thesis .
qed

section \<open>Properties of the shard planner\<close>

text \<open>
  The hash agrees with the value that mmh3 documents for \<open>foo\<close>, and with the
  expectation of test_identify_dirs_to_process in tests/test_worker.py: of the
  directories \<open>aa\<close>, \<open>bb\<close> and \<open>cc\<close> and three nodes, node 0 owns \<open>bb\<close>, node 1
  owns \<open>aa\<close> and node 2 owns \<open>cc\<close>.
\<close>

lemmas mmh3_defs = mmh3_hash_def scramble_def rotl32_def fmix32_def Let_def

lemma mmh3_hash_foo: "mmh3_hash ''foo'' = 4138058784"
  by (simp add: mmh3_defs)

lemma mmh3_hash_aa_bb_cc:
  "mmh3_hash ''aa'' mod 3 = 1" "mmh3_hash ''bb'' mod 3 = 0" "mmh3_hash ''cc'' mod 3 = 2"
  by (simp_all add: mmh3_defs)

lemma identify_dirs_to_process_filter:
  "node_count \<noteq> 0 \<Longrightarrow>
   identify_dirs_to_process input_dir node_id node_count =
     Inr (filter (\<lambda>d. is_dir d \<and> mmh3_hash (take 2 (entry_name d)) mod node_count = node_id)
            input_dir)"
  by (induction input_dir) simp_all

lemma test_identify_dirs_to_process:
  "identify_dirs_to_process
     [\<lparr>entry_name = ''aa'', is_dir = True\<rparr>, \<lparr>entry_name = ''bb'', is_dir = True\<rparr>,
      \<lparr>entry_name = ''cc'', is_dir = True\<rparr>] 0 3 = Inr [\<lparr>entry_name = ''bb'', is_dir = True\<rparr>]"
  "identify_dirs_to_process
     [\<lparr>entry_name = ''aa'', is_dir = True\<rparr>, \<lparr>entry_name = ''bb'', is_dir = True\<rparr>,
      \<lparr>entry_name = ''cc'', is_dir = True\<rparr>] 1 3 = Inr [\<lparr>entry_name = ''aa'', is_dir = True\<rparr>]"
  "identify_dirs_to_process
     [\<lparr>entry_name = ''aa'', is_dir = True\<rparr>, \<lparr>entry_name = ''bb'', is_dir = True\<rparr>,
      \<lparr>entry_name = ''cc'', is_dir = True\<rparr>] 2 3 = Inr [\<lparr>entry_name = ''cc'', is_dir = True\<rparr>]"
  by (simp_all add: identify_dirs_to_process_filter mmh3_hash_aa_bb_cc)

section \<open>The claims\<close>

text \<open>
  C1, as amended. For every record list sorted by timestamp and every reward window,
  each rewarded decision \<open>D\<close> that assign_rewards_to_decisions returns in bucket \<open>k\<close>
  is a decision record of the input with reward key \<open>k\<close>, changed in its \<open>reward\<close>
  only, and its reward (read with the default DEFAULT_REWARD_VALUE, as
  update_listeners reads it) is the reward it came with plus the sum of the
  contributions (items of rewards records with key \<open>k\<close>, and the values of events) of
  the records that come after it in the list with a timestamp \<open>t\<close> such that
  \<open>t_D \<le> t \<le> t_D + W\<close>. The window is closed on the left: a record at the instant
  of the decision that follows it in the list counts.
\<close>

theorem rewarded_decision_sum:
  assumes sorted: "sorted (map timestamp records)"
    and run: "assign_rewards_to_decisions cfg records = Inr d"
    and bucket: "(k, ds) \<in> set d"
    and emitted: "D \<in> set ds"
  shows "\<exists>i<length records.
           rec_type (records ! i) = Some ''decision'' \<and>
           key_of cfg (records ! i) = k \<and>
           D = (records ! i)\<lparr>reward := reward D\<rparr> \<and>
           get_reward cfg D =
             get_reward cfg (records ! i) +
             sum_list (map (contribution cfg k)
               (filter (in_window cfg (records ! i)) (drop (Suc i) records)))"
proof -
  from assign_rewards_bucket[OF run] bucket have "ds = enrolled cfg k records"
    by metis
  with emitted have "D \<in> set (enrolled cfg k records)" by simp
  then obtain i where i: "i < length records"
    and dec: "rec_type (records ! i) = Some ''decision''"
    and key: "key_of cfg (records ! i) = k"
    and fate: "fate cfg k (drop (Suc i) records) (records ! i) = Some D"
    using enrolled_position by blast
  define l where "l = records ! i"
  define later where "later = drop (Suc i) records"
  from fate have alive: "\<not> dropped cfg k later l"
    and D: "D = (if \<forall>r\<in>set later. values_for cfg k r = [] then l
                 else add_reward cfg (sum_list (map (contribution cfg k) later)) l)"
    by (auto simp: fate_closed l_def later_def split: if_splits)
  have same: "D = l\<lparr>reward := reward D\<rparr>"
    by (simp add: D add_reward_def)
  have total: "get_reward cfg D = get_reward cfg l + sum_list (map (contribution cfg k) later)"
    by (simp add: D contribution_silent)
  have "in_window cfg l r" if "r \<in> set later" and "contribution cfg k r \<noteq> 0" for r
  proof -
    from that(2) have "values_for cfg k r \<noteq> []"
      by (auto simp: contribution_def)
    with alive that(1) have "\<not> expired cfg l r"
      by (auto simp: dropped_def)
    moreover from sorted i that(1) have "timestamp l \<le> timestamp r"
      unfolding l_def later_def by (rule sorted_after)
    ultimately show ?thesis
      by (simp add: in_window_def expired_def)
  qed
  then have "sum_list (map (contribution cfg k) (filter (in_window cfg l) later)) =
      sum_list (map (contribution cfg k) later)"
    by (rule sum_list_filter_nonzero)
  with total have "get_reward cfg D =
      get_reward cfg l + sum_list (map (contribution cfg k) (filter (in_window cfg l) later))"
    by simp
  with i dec key same show ?thesis
    unfolding l_def later_def by blast
qed

text \<open>
  The theorem at the scenario with two reward keys: the decision of key \<open>b\<close> ends
  with reward 2.
\<close>

theorem rewarded_decision_sum_witness:
  "\<exists>i<length scenario_two_keys.
     rec_type (scenario_two_keys ! i) = Some ''decision'' \<and>
     key_of example_config (scenario_two_keys ! i) = ''b'' \<and>
     (decision_at ''m2'' 5000000 ''b'')\<lparr>reward := Some 2\<rparr> =
       (scenario_two_keys ! i)\<lparr>reward := reward ((decision_at ''m2'' 5000000 ''b'')\<lparr>reward := Some 2\<rparr>)\<rparr> \<and>
     get_reward example_config ((decision_at ''m2'' 5000000 ''b'')\<lparr>reward := Some 2\<rparr>) =
       get_reward example_config (scenario_two_keys ! i) +
       sum_list (map (contribution example_config ''b'')
         (filter (in_window example_config (scenario_two_keys ! i))
            (drop (Suc i) scenario_two_keys)))"
proof (rule rewarded_decision_sum)
  show "sorted (map timestamp scenario_two_keys)"
    by (simp add: scenario_two_keys_def example_defs)
  show "assign_rewards_to_decisions example_config scenario_two_keys =
     Inr [(''a'', [(decision_at ''m1'' 0 ''a'')\<lparr>reward := Some 1\<rparr>]),
          (''b'', [(decision_at ''m2'' 5000000 ''b'')\<lparr>reward := Some 2\<rparr>])]"
    by (rule scenario_two_keys_run)
  show "(''b'', [(decision_at ''m2'' 5000000 ''b'')\<lparr>reward := Some 2\<rparr>]) \<in>
     set [(''a'', [(decision_at ''m1'' 0 ''a'')\<lparr>reward := Some 1\<rparr>]),
          (''b'', [(decision_at ''m2'' 5000000 ''b'')\<lparr>reward := Some 2\<rparr>])]"
    by simp
  show "(decision_at ''m2'' 5000000 ''b'')\<lparr>reward := Some 2\<rparr> \<in>
     set [(decision_at ''m2'' 5000000 ''b'')\<lparr>reward := Some 2\<rparr>]"
    by simp
qed

text \<open>
  C1 as stated fails: a rewards record at the instant of the decision, listed after
  it, is added, though no contribution lies in \<open>t_D < t \<le> t_D + W\<close>.
\<close>

theorem reward_at_decision_instant_counted:
  "sorted (map timestamp scenario_same_instant) \<and>
   assign_rewards_to_decisions example_config scenario_same_instant =
     Inr [(''k'', [(decision_at ''m1'' 0 ''k'')\<lparr>reward := Some 1\<rparr>])] \<and>
   sum_list (map (contribution example_config ''k'')
     (filter (spec_window example_config (scenario_same_instant ! 0))
        (drop 1 scenario_same_instant))) = 0"
  by (simp add: scenario_same_instant_def example_defs spec_window_def)

text \<open>
  C2. A decision whose window has closed when an event arrives is deleted from its
  bucket by update_listeners, and the bucket is the list that
  assign_rewards_to_decisions returns: the decision is not emitted. The claim says
  that every decision record is emitted once.
\<close>

theorem expired_decision_not_emitted:
  "assign_rewards_to_decisions example_config
     [decision_at ''m1'' 0 ''k'', event_at ''m2'' 61000000 None] = Inr [(''k'', [])]"
  by (simp add: example_defs)

text \<open>
  C3, as amended. For every decision record and every rewards or event record that
  carries the same timestamp: when the record comes before the decision in the list,
  nothing is added and the decision enters its bucket as it is; when the decision is
  already listening and the window is not negative, update_listeners adds the value
  to the reward of the decision. The test of update_listeners bounds the record's
  instant from above only.
\<close>

theorem same_instant_contribution:
  assumes "timestamp r = timestamp d"
  shows "(0 \<le> window cfg \<and> py_float rv = Inr v \<and> d \<in> set listeners \<longrightarrow>
            (\<exists>listeners'. update_listeners cfg listeners r rv = Inr listeners' \<and>
               add_reward cfg v d \<in> set listeners')) \<and>
         (rec_type d = Some ''decision'' \<and>
          assign_rewards_to_decisions cfg (before @ [r, d]) = Inr b \<longrightarrow>
            (\<exists>pre. dict_get b (key_of cfg d) = pre @ [d]))"
proof (intro conjI impI)
  assume a: "0 \<le> window cfg \<and> py_float rv = Inr v \<and> d \<in> set listeners"
  with assms have "\<not> expired cfg d r" by (simp add: expired_def)
  with a show "\<exists>listeners'. update_listeners cfg listeners r rv = Inr listeners' \<and>
      add_reward cfg v d \<in> set listeners'"
    by (auto simp: update_listeners_number)
next
  assume a: "rec_type d = Some ''decision'' \<and>
    assign_rewards_to_decisions cfg (before @ [r, d]) = Inr b"
  then have "dict_get b (key_of cfg d) = enrolled cfg (key_of cfg d) ((before @ [r]) @ [d])"
    using assign_rewards_bucket(1)[of cfg "before @ [r, d]" b "key_of cfg d"] by simp
  with a enrolled_snoc_decision[of d cfg "before @ [r]"]
  show "\<exists>pre. dict_get b (key_of cfg d) = pre @ [d]" by simp
qed

text \<open>
  The theorem for a decision and an event of value 3 at the same instant.
\<close>

theorem same_instant_contribution_witness:
  "(\<exists>listeners'. update_listeners example_config [decision_at ''m1'' 0 ''k'']
        (event_at ''m2'' 0 (Some (Properties (Some (JNum 3))))) (JNum 3) = Inr listeners' \<and>
      add_reward example_config 3 (decision_at ''m1'' 0 ''k'') \<in> set listeners') \<and>
   (\<exists>pre. dict_get [(''k'', [decision_at ''m1'' 0 ''k''])]
        (key_of example_config (decision_at ''m1'' 0 ''k'')) = pre @ [decision_at ''m1'' 0 ''k''])"
  using same_instant_contribution[of "event_at ''m2'' 0 (Some (Properties (Some (JNum 3))))"
      "decision_at ''m1'' 0 ''k''" example_config "JNum 3" 3 "[decision_at ''m1'' 0 ''k'']" "[]"
      "[(''k'', [decision_at ''m1'' 0 ''k''])]"]
  by (simp add: example_defs)

text \<open>
  C3 as stated fails: the event at the instant of the listening decision is added.
\<close>

theorem listener_rewarded_at_own_instant:
  "timestamp (event_at ''m2'' 0 (Some (Properties (Some (JNum 3))))) =
     timestamp (decision_at ''m1'' 0 ''k'') \<and>
   update_listeners example_config [decision_at ''m1'' 0 ''k'']
     (event_at ''m2'' 0 (Some (Properties (Some (JNum 3))))) (JNum 3) =
     Inr [(decision_at ''m1'' 0 ''k'')\<lparr>reward := Some 3\<rparr>]"
  by (simp add: example_defs)

text \<open>
  C4. A decision record that no contribution reaches is returned as it came: the
  engine stores a reward only when it adds one, so the record carries no \<open>reward\<close>
  key at all. The claim says it is emitted with a numeric reward of 0.
\<close>

theorem unrewarded_decision_has_no_reward:
  "assign_rewards_to_decisions example_config [decision_at ''m1'' 0 ''k''] =
     Inr [(''k'', [decision_at ''m1'' 0 ''k''])] \<and>
   reward (decision_at ''m1'' 0 ''k'') = None"
  by (simp add: example_defs)




text \<open>
  C6, as amended. For every record whose timestamp string the parser rejects with a
  ValueError, only that record is rejected: load_history returns what it returns for
  the group whose file is without such records (the same records of the file and of
  the rest of the group, the same message ids and counts, or the same exception).
  The file is copied to the unrecoverable directory and the counter of unrecoverable
  parse errors is one higher for it (unless a malformed line of the file already did
  so). Nothing is stated here about a record without a timestamp, with a \<open>null\<close>
  timestamp, or with a timestamp string for which the parser raises OverflowError:
  those exceptions leave load_history.
\<close>

theorem unparseable_timestamp_skipped:
  assumes "content file = Lines lines" and "\<exists>l\<in>set lines. unparseable l"
  shows "load_history (before @ file # after) st =
     then_quarantined (if Malformed \<in> set lines then 0 else 1) {file_name file}
       (load_history
          (before @ file\<lparr>content := Lines (filter (\<lambda>l. \<not> unparseable l) lines)\<rparr> # after) st)"
proof -
  have "skipped l \<and> \<not> unparseable l \<longleftrightarrow> l = Malformed" for l
    by (cases l) (simp_all add: unparseable_def)
  then have "(\<exists>l\<in>set lines. skipped l \<and> \<not> unparseable l) \<longleftrightarrow> Malformed \<in> set lines"
    by simp
  moreover have "load_history (before @ file # after) st =
     then_quarantined (if \<exists>l\<in>set lines. skipped l \<and> \<not> unparseable l then 0 else 1)
       {file_name file}
       (load_history
          (before @ file\<lparr>content := Lines (filter (\<lambda>l. \<not> unparseable l) lines)\<rparr> # after) st)"
    using assms by (intro load_history_skip) (auto simp: unparseable_def split: line.splits)
  ultimately show ?thesis by simp
qed

text \<open>
  The theorem for a group of two files, the first with a record whose timestamp the
  parser rejects with a ValueError.
\<close>

theorem unparseable_timestamp_skipped_witness:
  "load_history
     [\<lparr>file_name = ''h-1.jsonl.gz'',
       content = Lines [Object (example_object ''A'' TsUnparseable),
                        Object (example_object ''B'' (TsParsed 0))]\<rparr>,
      \<lparr>file_name = ''h-2.jsonl.gz'',
       content = Lines [Object (example_object ''C'' (TsParsed 5))]\<rparr>] empty_state =
   then_quarantined 1 {''h-1.jsonl.gz''}
     (load_history
        [\<lparr>file_name = ''h-1.jsonl.gz'',
          content = Lines [Object (example_object ''B'' (TsParsed 0))]\<rparr>,
         \<lparr>file_name = ''h-2.jsonl.gz'',
          content = Lines [Object (example_object ''C'' (TsParsed 5))]\<rparr>] empty_state)"
  using unparseable_timestamp_skipped[of
      "\<lparr>file_name = ''h-1.jsonl.gz'',
        content = Lines [Object (example_object ''A'' TsUnparseable),
                         Object (example_object ''B'' (TsParsed 0))]\<rparr>"
      "[Object (example_object ''A'' TsUnparseable), Object (example_object ''B'' (TsParsed 0))]"
      "[]"
      "[\<lparr>file_name = ''h-2.jsonl.gz'',
         content = Lines [Object (example_object ''C'' (TsParsed 5))]\<rparr>]"
      empty_state]
  by (simp add: unparseable_def example_object_def)

text \<open>
  C6 as stated fails: the file with the record whose timestamp the parser rejects
  with a ValueError is copied to the unrecoverable directory and counted.
\<close>

theorem bad_timestamp_quarantines_file:
  "load_history
     [\<lparr>file_name = ''h-1.jsonl.gz'',
       content = Lines [Object (example_object ''A'' TsUnparseable),
                        Object (example_object ''B'' (TsParsed 0))]\<rparr>] empty_state =
   Inr ([example_object ''B'' (TsParsed 0)],
        \<lparr>message_ids = {''B''}, DUPLICATE_MESSAGE_ID_COUNT = 0, RECORD_COUNT = 1,
         UNRECOVERABLE_PARSE_ERROR_COUNT = 1, UNRECOVERABLE_PATH = {''h-1.jsonl.gz''}\<rparr>)"
  by (simp add: loader_defs)

text \<open>
  C7. validate_record looks for the key \<open>model\<close> and never reads \<open>count\<close>: a decision
  record whose history id hashes to the group's id is kept by filter_valid_records
  whatever its \<open>model\<close> is, the empty string too, and whatever its \<open>count\<close> is or
  whether it has one. The claim says that such records are discarded.
\<close>

theorem decision_with_any_count_kept:
  assumes "sha256_hexdigest ''user'' = hashed_history_id" and "model_val \<noteq> None"
  shows "filter_valid_records sha256_hexdigest hashed_history_id
           [example_decision model_val count_val] =
         ([example_decision model_val count_val], 0)"
  using assms
  by (simp add: filter_valid_records_def validate_record_def example_decision_def truthy_def)

text \<open>
  The theorem for a decision with the empty model and the count 0.
\<close>

theorem decision_with_any_count_kept_witness:
  "filter_valid_records (\<lambda>s. ''digest'') ''digest''
     [example_decision (Some (String [])) (Some (Integer 0))] =
   ([example_decision (Some (String [])) (Some (Integer 0))], 0)"
  using decision_with_any_count_kept[of "\<lambda>s. ''digest''" "''digest''" "Some (String [])"
      "Some (Integer 0)"]
  by simp

text \<open>
  C8, as amended. For every event record whose \<open>properties.value\<close> is a number, or
  whose \<open>properties\<close> or \<open>value\<close> is absent: in every bucket, each listener whose
  window has not closed at the event gets the value added to its reward, where the
  value is \<open>properties.value\<close> when it is there and DEFAULT_EVENTS_REWARD_VALUE
  otherwise; the listeners whose window has closed are deleted.
\<close>

theorem event_contribution:
  assumes "rec_type r = Some ''event''" and "spec_event_value cfg r = Some v"
  shows "assign_step cfg d r =
     Inr (map (\<lambda>(k, listeners).
            (k, map (add_reward cfg v) (filter (\<lambda>l. \<not> expired cfg l r) listeners))) d)"
proof -
  from assms(2) have "py_float (event_value cfg r) = Inr v"
    by (auto simp: spec_event_value_def event_value_def
        split: option.splits properties.splits json.splits)
  with assms(1) show ?thesis
    by (simp add: assign_step_def apply_event_number)
qed

text \<open>
  The theorem for two buckets and an event of value 4 that comes 62 seconds after
  the first decision and 57 seconds after the second.
\<close>

theorem event_contribution_witness:
  "assign_step example_config
     [(''a'', [decision_at ''m1'' 0 ''a'']), (''b'', [decision_at ''m2'' 5000000 ''b''])]
     (event_at ''m3'' 62000000 (Some (Properties (Some (JNum 4))))) =
   Inr [(''a'', []), (''b'', [(decision_at ''m2'' 5000000 ''b'')\<lparr>reward := Some 4\<rparr>])]"
  using event_contribution[of "event_at ''m3'' 62000000 (Some (Properties (Some (JNum 4))))"
      example_config 4
      "[(''a'', [decision_at ''m1'' 0 ''a'']), (''b'', [decision_at ''m2'' 5000000 ''b''])]"]
  by (simp add: example_defs spec_event_value_def)

text \<open>
  C8 as stated fails: a value that is present and not a number is not replaced by
  the default; \<open>float\<close> raises for the first listener in the window.
\<close>

theorem event_null_value_raises:
  "assign_rewards_to_decisions example_config
     [decision_at ''m1'' 0 ''k'', event_at ''m2'' 10000000 (Some (Properties (Some JNull)))] =
     Inl TypeError"
  by (simp add: example_defs)

text \<open>
  C9. For every directory \<open>d\<close> of the listing and every node count \<open>N > 0\<close>, exactly
  one node id in \<open>[0, N)\<close> has \<open>d\<close> among its directories to process, and a node owns
  \<open>d\<close> exactly when the MurmurHash3 of the first two characters of its name is the
  node's id modulo \<open>N\<close>: the owner depends on the name and \<open>N\<close> alone, so every run
  with the same \<open>N\<close> gives \<open>d\<close> to the same node.
\<close>

theorem one_owner_per_directory:
  assumes "0 < node_count" and "d \<in> set input_dir" and "is_dir d"
  shows "(\<exists>!node_id. 0 \<le> node_id \<and> node_id < node_count \<and>
            (\<exists>dirs. identify_dirs_to_process input_dir node_id node_count = Inr dirs \<and>
               d \<in> set dirs)) \<and>
         ((\<exists>dirs. identify_dirs_to_process input_dir node_id node_count = Inr dirs \<and>
             d \<in> set dirs) \<longleftrightarrow>
          mmh3_hash (take 2 (entry_name d)) mod node_count = node_id)"
proof -
  let ?h = "mmh3_hash (take 2 (entry_name d))"
  have owner: "(\<exists>dirs. identify_dirs_to_process input_dir i node_count = Inr dirs \<and> d \<in> set dirs) \<longleftrightarrow>
      ?h mod node_count = i" for i
    using assms by (simp add: identify_dirs_to_process_filter)
  have "\<exists>!i. 0 \<le> i \<and> i < node_count \<and> ?h mod node_count = i"
    using assms(1) by (intro ex1I[of _ "?h mod node_count"]) auto
  then show ?thesis
    by (simp add: owner)
qed

text \<open>
  The theorem for the directories \<open>aa\<close>, \<open>bb\<close> and \<open>cc\<close> and three nodes.
\<close>

theorem one_owner_per_directory_witness:
  "(\<exists>!node_id. 0 \<le> node_id \<and> node_id < 3 \<and>
      (\<exists>dirs. identify_dirs_to_process
          [\<lparr>entry_name = ''aa'', is_dir = True\<rparr>, \<lparr>entry_name = ''bb'', is_dir = True\<rparr>,
           \<lparr>entry_name = ''cc'', is_dir = True\<rparr>] node_id 3 = Inr dirs \<and>
         \<lparr>entry_name = ''aa'', is_dir = True\<rparr> \<in> set dirs)) \<and>
   ((\<exists>dirs. identify_dirs_to_process
          [\<lparr>entry_name = ''aa'', is_dir = True\<rparr>, \<lparr>entry_name = ''bb'', is_dir = True\<rparr>,
           \<lparr>entry_name = ''cc'', is_dir = True\<rparr>] 1 3 = Inr dirs \<and>
         \<lparr>entry_name = ''aa'', is_dir = True\<rparr> \<in> set dirs) \<longleftrightarrow>
    mmh3_hash (take 2 (entry_name \<lparr>entry_name = ''aa'', is_dir = True\<rparr>)) mod 3 = 1)"
  using one_owner_per_directory[of 3 "\<lparr>entry_name = ''aa'', is_dir = True\<rparr>"
      "[\<lparr>entry_name = ''aa'', is_dir = True\<rparr>, \<lparr>entry_name = ''bb'', is_dir = True\<rparr>,
        \<lparr>entry_name = ''cc'', is_dir = True\<rparr>]" 1]
  by simp

text \<open>
  C10. The keys of the mapping that assign_rewards_to_decisions returns are exactly
  the reward keys of the decision records of the input, where a decision record
  without a \<open>reward_key\<close> counts with DEFAULT_REWARD_KEY, and each key is there once;
  and a rewards record none of whose keys is a key of the mapping leaves the mapping
  as it is.
\<close>

theorem bucket_keys:
  "(assign_rewards_to_decisions cfg records = Inr d \<longrightarrow>
      set (map fst d) =
        (\<lambda>r. case reward_key r of None \<Rightarrow> DEFAULT_REWARD_KEY cfg | Some k \<Rightarrow> k) `
          {r \<in> set records. rec_type r = Some ''decision''} \<and>
      distinct (map fst d)) \<and>
   (rec_type r = Some ''rewards'' \<and> rewards r = Some items \<and>
    (\<forall>item\<in>set items. fst item \<notin> set (map fst d0)) \<longrightarrow>
      assign_step cfg d0 r = Inr d0)"
proof (intro conjI impI)
  assume "assign_rewards_to_decisions cfg records = Inr d"
  then have loop: "assign_loop cfg [] records = Inr d"
    by (simp add: assign_rewards_to_decisions_def)
  have "key_of cfg = (\<lambda>r. case reward_key r of None \<Rightarrow> DEFAULT_REWARD_KEY cfg | Some k \<Rightarrow> k)"
    by (rule ext) (simp add: key_of_def)
  with assign_loop_keys[OF loop]
  show "set (map fst d) =
      (\<lambda>r. case reward_key r of None \<Rightarrow> DEFAULT_REWARD_KEY cfg | Some k \<Rightarrow> k) `
        {r \<in> set records. rec_type r = Some ''decision''}"
    by simp
  from assign_loop_distinct[OF loop] show "distinct (map fst d)" by simp
next
  assume a: "rec_type r = Some ''rewards'' \<and> rewards r = Some items \<and>
    (\<forall>item\<in>set items. fst item \<notin> set (map fst d0))"
  then have "\<forall>item\<in>set items. map_of d0 (fst item) = None"
    by (simp add: map_of_eq_None_iff)
  then have "apply_rewards cfg d0 r items = Inr d0"
    by (rule apply_rewards_unmatched)
  with a show "assign_step cfg d0 r = Inr d0"
    by (simp add: assign_step_def)
qed

text \<open>
  The theorem for a list whose first decision has no \<open>reward_key\<close> and whose second
  has the key \<open>b\<close>: the keys are the default key \<open>reward\<close> and \<open>b\<close>. And for a rewards
  record of key \<open>z\<close> when only bucket \<open>a\<close> exists.
\<close>

theorem bucket_keys_witness:
  "assign_rewards_to_decisions example_config scenario_default_key =
     Inr [(''reward'', [(decision_at ''m1'' 0 ''a'')\<lparr>reward_key := None, reward := Some 1\<rparr>]),
          (''b'', [(decision_at ''m2'' 5000000 ''b'')\<lparr>reward := Some 2\<rparr>])] \<and>
   {''reward'', ''b''} =
     (\<lambda>r. case reward_key r of None \<Rightarrow> DEFAULT_REWARD_KEY example_config | Some k \<Rightarrow> k) `
       {r \<in> set scenario_default_key. rec_type r = Some ''decision''} \<and>
   assign_step example_config [(''a'', [decision_at ''m1'' 0 ''a''])]
     (rewards_at ''m3'' 20000000 [(''z'', JNum 1)]) = Inr [(''a'', [decision_at ''m1'' 0 ''a''])]"
  using bucket_keys[of example_config scenario_default_key
      "[(''reward'', [(decision_at ''m1'' 0 ''a'')\<lparr>reward_key := None, reward := Some 1\<rparr>]),
        (''b'', [(decision_at ''m2'' 5000000 ''b'')\<lparr>reward := Some 2\<rparr>])]"
      "rewards_at ''m3'' 20000000 [(''z'', JNum 1)]" "[(''z'', JNum 1)]"
      "[(''a'', [decision_at ''m1'' 0 ''a''])]"]
    scenario_default_key_run
  by (simp add: rewards_at_def)

end
